theory Spec2Isabelle
  imports Main "HOL-Library.Multiset"
begin

section \<open>Values shared by both versions of the build command\<close>

text \<open>
  A Go \<^verbatim>\<open>error\<close> value is \<open>None\<close> for \<^verbatim>\<open>nil\<close> and \<open>Some msg\<close> for a non-nil error
  with message \<open>msg\<close>. A function returning \<^verbatim>\<open>(T, error)\<close> returns \<open>error + T\<close>.
\<close>

type_synonym error = string

text \<open>
  The closures handed to the workers are represented by what they call: the closure
  \<^verbatim>\<open>func() error { return compileArticle(name) }\<close> is \<open>CompileArticle name\<close>.
  The first three constructors are the jobs of \<^verbatim>\<open>main.go\<close>, the other five the jobs of
  the pool-based command.
\<close>

datatype job =
    LinkAssets
  | RenderArticle string
  | RenderPage string
  | LinkFonts
  | LinkImages
  | CompileJavascripts
  | CompileStylesheets
  | CompileArticle string

text \<open>\<^verbatim>\<open>strings.HasPrefix\<close> and \<^verbatim>\<open>strings.TrimSuffix\<close> of the Go library, on byte strings.\<close>

definition HasPrefix :: "string \<Rightarrow> string \<Rightarrow> bool" where
  "HasPrefix s p = (length p \<le> length s \<and> take (length p) s = p)"

definition HasSuffix :: "string \<Rightarrow> string \<Rightarrow> bool" where
  "HasSuffix s p = (length p \<le> length s \<and> drop (length s - length p) s = p)"

definition TrimSuffix :: "string \<Rightarrow> string \<Rightarrow> string" where
  "TrimSuffix s p = (if HasSuffix s p then take (length s - length p) s else s)"

text \<open>
  \<^verbatim>\<open>filepath.Ext\<close>: scanning from the end and stopping at a path separator, the suffix
  that starts at the last dot; empty when there is none.
\<close>

fun ext_scan :: "string \<Rightarrow> string \<Rightarrow> string" where
  "ext_scan [] acc = []"
| "ext_scan (c # r) acc =
     (if c = CHR ''/'' then []
      else if c = CHR ''.'' then c # acc
      else ext_scan r (c # acc))"

definition Ext :: "string \<Rightarrow> string" where
  "Ext p = ext_scan (rev p) []"

definition trimExtension :: "string \<Rightarrow> string" where
  "trimExtension file = TrimSuffix file (Ext file)"

definition isHidden :: "string \<Rightarrow> bool" where
  "isHidden file = HasPrefix file ''.''"

section \<open>The task pool\<close>

text \<open>
  Modelled from the spec: the package \<^verbatim>\<open>pool\<close> (\<^verbatim>\<open>NewTask\<close>, \<^verbatim>\<open>NewPool\<close>, \<^verbatim>\<open>Run\<close>,
  \<^verbatim>\<open>HasErrors\<close>, the fields \<^verbatim>\<open>Tasks\<close> and \<^verbatim>\<open>Err\<close>) is not among the sources. The
  specification gives a Task as a Job paired with its outcome, one of "not yet run",
  "succeeded" and "failed(error)".
\<close>

datatype outcome = NotYetRun | Succeeded | Failed error

record 'j Task =
  Job :: 'j
  Outcome :: outcome

text \<open>Modelled from the spec: \<^verbatim>\<open>pool.NewTask\<close>, a Task whose Job has not yet run.\<close>

definition NewTask :: "'j \<Rightarrow> 'j Task" where
  "NewTask j = \<lparr>Job = j, Outcome = NotYetRun\<rparr>"

text \<open>
  Modelled from the spec: the field \<^verbatim>\<open>Err\<close> that \<^verbatim>\<open>runTasks\<close> reads from a Task is the
  error of a failed outcome, and \<^verbatim>\<open>nil\<close> otherwise.
\<close>

definition Err :: "'j Task \<Rightarrow> error option" where
  "Err t = (case Outcome t of Failed e \<Rightarrow> Some e | _ \<Rightarrow> None)"

text \<open>
  Modelled from the spec: the Task Pool holds the list of Tasks to execute and the
  worker count.
\<close>

record 'j Pool =
  Tasks :: "'j Task list"
  workerCount :: int

text \<open>
  Modelled from the spec: \<^verbatim>\<open>Construct(jobs, workerCount)\<close> wraps the Tasks in the order
  submitted.
\<close>

definition NewPool :: "'j Task list \<Rightarrow> int \<Rightarrow> 'j Pool" where
  "NewPool tasks n = \<lparr>Tasks = tasks, workerCount = n\<rparr>"

text \<open>
  Modelled from the spec: executing a Task invokes its Job and stores the outcome on the
  Task. What invoking a Job returns is given by \<open>exec\<close>: \<open>None\<close> for success, \<open>Some e\<close>
  for the error \<open>e\<close>.
\<close>

definition outcome_of :: "error option \<Rightarrow> outcome" where
  "outcome_of r = (case r of None \<Rightarrow> Succeeded | Some e \<Rightarrow> Failed e)"

definition run_task :: "('j \<Rightarrow> error option) \<Rightarrow> 'j Task \<Rightarrow> 'j Task" where
  "run_task exec t = t\<lparr>Outcome := outcome_of (exec (Job t))\<rparr>"

text \<open>
  Modelled from the spec: \<^verbatim>\<open>Run()\<close> blocks until every Task has completed, each Job
  executed once and its outcome stored on its Task, the Tasks staying in submission
  order. The specification defines the pool for a positive worker count only; for any
  other count the model has \<open>Run\<close> not return (\<open>None\<close>).
\<close>

definition Run :: "('j \<Rightarrow> error option) \<Rightarrow> 'j Pool \<Rightarrow> 'j Pool option" where
  "Run exec p =
     (if workerCount p < 1 then None
      else Some (p\<lparr>Tasks := map (run_task exec) (Tasks p)\<rparr>))"

text \<open>Modelled from the spec: \<^verbatim>\<open>HasErrors()\<close> is true iff some Task's outcome is failed.\<close>

definition HasErrors :: "'j Pool \<Rightarrow> bool" where
  "HasErrors p = list_ex (\<lambda>t. Err t \<noteq> None) (Tasks p)"

subsection \<open>The workers of the pool\<close>















section \<open>The pool-based command\<close>

record Conf =
  Concurrency :: int
  GoogleAnalyticsID :: string
  LocalFonts :: bool
  Verbose :: bool

text \<open>Lines written through the logger at the levels the claims are about.\<close>

datatype logline = LogError string | LogFatal string

subsection \<open>\<^verbatim>\<open>runTasks\<close>\<close>

text \<open>
  The reporting loop of \<^verbatim>\<open>runTasks\<close>, with \<^verbatim>\<open>numErrors\<close> as its first argument: a Task
  with an error is logged and counted, and once the count has reached 10 the marker is
  logged and the loop is left.
\<close>

fun report :: "nat \<Rightarrow> 'j Task list \<Rightarrow> logline list" where
  "report numErrors [] = []"
| "report numErrors (task # rest) =
     (let logged = (case Err task of Some e \<Rightarrow> [LogError e] | None \<Rightarrow> []);
          numErrors' = (case Err task of Some e \<Rightarrow> numErrors + 1 | None \<Rightarrow> numErrors)
      in if numErrors' \<ge> 10 then logged @ [LogError ''Too many errors.'']
         else logged @ report numErrors' rest)"

text \<open>
  \<^verbatim>\<open>runTasks\<close> returns the lines it logged and its boolean result; \<open>None\<close> when the
  pool's \<open>Run\<close> does not return.
\<close>

definition runTasks ::
  "('j \<Rightarrow> error option) \<Rightarrow> Conf \<Rightarrow> 'j Task list \<Rightarrow> (logline list \<times> bool) option" where
  "runTasks exec conf tasks =
     (case Run exec (NewPool tasks (Concurrency conf)) of
        None \<Rightarrow> None
      | Some p \<Rightarrow> Some (report 0 (Tasks p), \<not> HasErrors p))"

text \<open>
  The errors the jobs of a task list return, in submission order, and the errors recorded
  on a task list.
\<close>

definition failures :: "('j \<Rightarrow> error option) \<Rightarrow> 'j Task list \<Rightarrow> error list" where
  "failures exec tasks = List.map_filter (\<lambda>t. exec (Job t)) tasks"

definition recorded :: "'j Task list \<Rightarrow> error list" where
  "recorded tasks = List.map_filter Err tasks"

subsection \<open>\<^verbatim>\<open>tasksForArticles\<close>\<close>

text \<open>
  The directory listing \<^verbatim>\<open>os.ReadDir\<close> returns is an argument: an error, or the names of
  the entries. The loop appends one Task per name that is not hidden.
\<close>

fun tasksForArticles_loop :: "string list \<Rightarrow> job Task list \<Rightarrow> job Task list" where
  "tasksForArticles_loop [] tasks = tasks"
| "tasksForArticles_loop (name # files) tasks =
     (if isHidden name then tasksForArticles_loop files tasks
      else tasksForArticles_loop files (tasks @ [NewTask (CompileArticle name)]))"

definition tasksForArticles :: "error + string list \<Rightarrow> error + job Task list" where
  "tasksForArticles readDir =
     (case readDir of
        Inl err \<Rightarrow> Inl err
      | Inr files \<Rightarrow> Inr (tasksForArticles_loop files []))"

subsection \<open>\<^verbatim>\<open>getLocals\<close>\<close>

text \<open>
  A value of type \<^verbatim>\<open>interface{}\<close>: the strings and booleans the command stores, and
  anything else a caller may pass.
\<close>

datatype 'a iface = VString string | VBool bool | VOther 'a

text \<open>
  The argument \<^verbatim>\<open>locals\<close> is given by its entries in the order the \<^verbatim>\<open>range\<close> loop visits
  them (a Go map has each key once; the order is not fixed). The constant
  \<^verbatim>\<open>singularity.Release\<close> is not among the sources and is the argument \<open>release\<close>.
\<close>

definition getLocals_defaults :: "Conf \<Rightarrow> string \<Rightarrow> string \<Rightarrow> (string \<rightharpoonup> 'a iface)" where
  "getLocals_defaults conf release title =
     [''GoogleAnalyticsID'' \<mapsto> VString (GoogleAnalyticsID conf),
      ''LocalFonts'' \<mapsto> VBool (LocalFonts conf),
      ''Release'' \<mapsto> VString release,
      ''Title'' \<mapsto> VString title,
      ''ViewportWidth'' \<mapsto> VString ''device-width'']"

fun getLocals_loop ::
  "(string \<times> 'a iface) list \<Rightarrow> (string \<rightharpoonup> 'a iface) \<Rightarrow> (string \<rightharpoonup> 'a iface)" where
  "getLocals_loop [] defaults = defaults"
| "getLocals_loop ((k, v) # rest) defaults = getLocals_loop rest (defaults(k \<mapsto> v))"

definition getLocals ::
  "Conf \<Rightarrow> string \<Rightarrow> string \<Rightarrow> (string \<times> 'a iface) list \<Rightarrow> (string \<rightharpoonup> 'a iface)" where
  "getLocals conf release title locals =
     getLocals_loop locals (getLocals_defaults conf release title)"

subsection \<open>\<^verbatim>\<open>ensureSymlink\<close> and the file system it works on\<close>

text \<open>
  The calls \<^verbatim>\<open>os.Stat\<close>, \<^verbatim>\<open>os.Readlink\<close>, \<^verbatim>\<open>os.RemoveAll\<close> and \<^verbatim>\<open>os.Symlink\<close> belong to
  the Go library; they are modelled on a file system that maps a path to what is there.
  A path is absolute and clean (the callers pass the result of \<^verbatim>\<open>filepath.Abs\<close>) and is
  given by its components; the empty path is the root, which is a directory. The model
  resolves a symbolic link only when it is the entry a path names, not when it is one of
  the components before the last, and it has no permissions: the errors it can report
  are the ones below.

  \<^item> \<open>Stat\<close> follows symbolic links, at most 40 of them, as Linux does; a longer chain
    or a cycle is \<open>ELOOP\<close>, a missing entry or a link to a missing entry is \<open>ENOENT\<close>.
  \<^item> \<open>Readlink\<close> returns the target of a link, and \<open>EINVAL\<close> for an entry that is not
    a link.
  \<^item> \<open>RemoveAll\<close> removes the entry and everything below it, and succeeds when there
    is nothing to remove.
  \<^item> \<open>Symlink_call\<close> (\<^verbatim>\<open>os.Symlink\<close>) creates a link; it fails when the new name
    exists or when its parent is not a directory.

  \<open>ensureSymlink\<close> returns the error, the file system it leaves, and the calls it made
  that can change the file system.
\<close>

type_synonym path = "string list"

datatype node = File | Dir | Symlink path

type_synonym filesystem = "path \<rightharpoonup> node"

datatype errno = ENOENT | EEXIST | EINVAL | ELOOP | ENOTDIR

definition lookup :: "filesystem \<Rightarrow> path \<Rightarrow> node option" where
  "lookup fs p = (if p = [] then Some Dir else fs p)"

fun follow :: "nat \<Rightarrow> filesystem \<Rightarrow> path \<Rightarrow> errno + node" where
  "follow 0 fs p =
     (case lookup fs p of
        None \<Rightarrow> Inl ENOENT
      | Some (Symlink target) \<Rightarrow> Inl ELOOP
      | Some File \<Rightarrow> Inr File
      | Some Dir \<Rightarrow> Inr Dir)"
| "follow (Suc k) fs p =
     (case lookup fs p of
        None \<Rightarrow> Inl ENOENT
      | Some (Symlink target) \<Rightarrow> follow k fs target
      | Some File \<Rightarrow> Inr File
      | Some Dir \<Rightarrow> Inr Dir)"

definition Stat :: "filesystem \<Rightarrow> path \<Rightarrow> errno + node" where
  "Stat fs p = follow 40 fs p"

definition IsNotExist :: "errno \<Rightarrow> bool" where
  "IsNotExist err = (err = ENOENT)"

definition Readlink :: "filesystem \<Rightarrow> path \<Rightarrow> errno + path" where
  "Readlink fs p =
     (case lookup fs p of
        None \<Rightarrow> Inl ENOENT
      | Some (Symlink target) \<Rightarrow> Inr target
      | Some File \<Rightarrow> Inl EINVAL
      | Some Dir \<Rightarrow> Inl EINVAL)"

definition under :: "path \<Rightarrow> path \<Rightarrow> bool" where
  "under p q = (take (length p) q = p)"

definition RemoveAll :: "filesystem \<Rightarrow> path \<Rightarrow> errno option \<times> filesystem" where
  "RemoveAll fs p = (None, (\<lambda>q. if under p q then None else fs q))"

definition Symlink_call :: "filesystem \<Rightarrow> path \<Rightarrow> path \<Rightarrow> errno option \<times> filesystem" where
  "Symlink_call fs oldname newname =
     (if lookup fs newname \<noteq> None then (Some EEXIST, fs)
      else case lookup fs (butlast newname) of
             None \<Rightarrow> (Some ENOENT, fs)
           | Some Dir \<Rightarrow> (None, fs(newname \<mapsto> Symlink oldname))
           | Some File \<Rightarrow> (Some ENOTDIR, fs)
           | Some (Symlink target) \<Rightarrow> (Some ENOTDIR, fs))"

datatype fscall = CallRemoveAll path | CallSymlink path path

definition ensureSymlink_create ::
  "filesystem \<Rightarrow> path \<Rightarrow> path \<Rightarrow> errno option \<times> filesystem \<times> fscall list" where
  "ensureSymlink_create fs source dest =
     (case RemoveAll fs dest of
        (Some err, fs') \<Rightarrow> (Some err, fs', [CallRemoveAll dest])
      | (None, fs') \<Rightarrow>
          (case Symlink_call fs' source dest of
             (err, fs'') \<Rightarrow> (err, fs'', [CallRemoveAll dest, CallSymlink source dest])))"

definition ensureSymlink ::
  "filesystem \<Rightarrow> path \<Rightarrow> path \<Rightarrow> errno option \<times> filesystem \<times> fscall list" where
  "ensureSymlink fs source dest =
     (case Stat fs dest of
        Inl err \<Rightarrow>
          if IsNotExist err then ensureSymlink_create fs source dest
          else (Some err, fs, [])
      | Inr info \<Rightarrow>
          (case Readlink fs dest of
             Inl err \<Rightarrow> (Some err, fs, [])
           | Inr actual \<Rightarrow>
               if actual = source then (None, fs, [])
               else ensureSymlink_create fs source dest))"

definition removed :: "filesystem \<Rightarrow> path \<Rightarrow> filesystem" where
  "removed fs p = snd (RemoveAll fs p)"

subsection \<open>\<^verbatim>\<open>main\<close>\<close>

text \<open>
  What the command reads from outside is an argument: the result of decoding the
  environment into \<^verbatim>\<open>conf\<close>, the result of \<^verbatim>\<open>singularity.CreateOutputDirs\<close> (not among
  the sources), the listing of the articles directory, and what each job returns when it
  is invoked.
\<close>

record Env =
  decodeEnv :: "error + Conf"
  createOutputDirs :: "error option"
  readArticles :: "error + string list"
  execJob :: "job \<Rightarrow> error option"

text \<open>
  How the process ends: its exit status, the lines logged at error and fatal level, and
  the jobs handed to the pool's \<open>Run\<close>, in submission order (the pool runs each once; the
  order of execution is not fixed). \<^verbatim>\<open>log.Fatal\<close> logs and exits with status 1.
\<close>

record Exit =
  status :: int
  logged :: "logline list"
  executed :: "job list"

definition fatal :: "error \<Rightarrow> Exit" where
  "fatal err = \<lparr>status = 1, logged = [LogFatal err], executed = []\<rparr>"

definition fixedTasks :: "job Task list" where
  "fixedTasks =
     [NewTask LinkFonts, NewTask LinkImages, NewTask CompileJavascripts,
      NewTask CompileStylesheets]"

definition main :: "Env \<Rightarrow> Exit option" where
  "main env =
     (case decodeEnv env of
        Inl err \<Rightarrow> Some (fatal err)
      | Inr conf \<Rightarrow>
          (case createOutputDirs env of
             Some err \<Rightarrow> Some (fatal err)
           | None \<Rightarrow>
               (case tasksForArticles (readArticles env) of
                  Inl err \<Rightarrow> Some (fatal err)
                | Inr articleTasks \<Rightarrow>
                    (let tasks = fixedTasks @ articleTasks in
                     case runTasks (execJob env) conf tasks of
                       None \<Rightarrow> None
                     | Some (lines, ok) \<Rightarrow>
                         Some \<lparr>status = (if ok then 0 else 1), logged = lines,
                               executed = map Job tasks\<rparr>))))"

section \<open>The channel-based command (\<^verbatim>\<open>main.go\<close>)\<close>

text \<open>
  \<^verbatim>\<open>generateArticleJobs\<close> and \<^verbatim>\<open>generatePageJobs\<close> fill one slot per entry of the
  listing \<^verbatim>\<open>ioutil.ReadDir\<close> returns.
\<close>

definition generateArticleJobs :: "error + string list \<Rightarrow> error + job list" where
  "generateArticleJobs readDir =
     (case readDir of
        Inl err \<Rightarrow> Inl err
      | Inr files \<Rightarrow> Inr (map (\<lambda>name. RenderArticle name) files))"

definition generatePageJobs :: "error + string list \<Rightarrow> error + job list" where
  "generatePageJobs readDir =
     (case readDir of
        Inl err \<Rightarrow> Inl err
      | Inr files \<Rightarrow> Inr (map (\<lambda>name. RenderPage (trimExtension name)) files))"

subsection \<open>\<^verbatim>\<open>main\<close> of \<^verbatim>\<open>main.go\<close>: goroutines, channels and the WaitGroup\<close>

text \<open>
  \<^verbatim>\<open>main\<close> starts a goroutine that reads the unbuffered channel \<^verbatim>\<open>errors\<close> and panics on
  the first value that is not \<^verbatim>\<open>nil\<close>, starts \<^verbatim>\<open>Concurrency\<close> workers that read closures
  from the buffered channel \<^verbatim>\<open>jobs\<close>, send what each returns to \<^verbatim>\<open>errors\<close> and call
  \<^verbatim>\<open>wg.Done()\<close>, and then submits its jobs and waits on the WaitGroup.

  The model interleaves these threads. A state holds the place \<^verbatim>\<open>main\<close> has reached, the
  state of the reader of \<^verbatim>\<open>errors\<close> and of each worker, the contents of \<^verbatim>\<open>jobs\<close>, the
  counter of the WaitGroup, the jobs invoked so far and, once the process has ended, how.
  A send on \<^verbatim>\<open>errors\<close> is a step of the sender, enabled when the reader waits to receive;
  a send on \<^verbatim>\<open>jobs\<close> is enabled while the buffer has room; \<^verbatim>\<open>wg.Wait()\<close> is enabled when the
  counter is 0, and \<^verbatim>\<open>main\<close> returning ends the process. What the environment supplies
  (the result of \<^verbatim>\<open>os.MkdirAll\<close>, the two directory listings, what a job returns) is an
  argument, and so is the number of workers, which \<^verbatim>\<open>main.go\<close> fixes to \<open>Concurrency_go\<close>.
\<close>

definition Concurrency_go :: nat where
  "Concurrency_go = 10"

definition jobs_capacity :: nat where
  "jobs_capacity = 1000"

record Env_go =
  mkdirAll :: "error option"
  readArticlesDir :: "error + string list"
  readPagesDir :: "error + string list"
  runJob :: "job \<Rightarrow> error option"

text \<open>
  Where \<^verbatim>\<open>main\<close> is, by the statement it executes next:
  \<^item> \<open>MSendMkdir\<close>: \<^verbatim>\<open>errors <- err\<close> with the result of \<^verbatim>\<open>os.MkdirAll\<close> (line 53);
  \<^item> \<open>MSpawn i\<close>: the loop that starts the workers, at its test with counter \<open>i\<close> (line 61);
  \<^item> \<open>MAdd1\<close>: \<^verbatim>\<open>wg.Add(1)\<close> (line 71);
  \<^item> \<open>MSendLink\<close>: \<^verbatim>\<open>jobs <- \<close> the closure that calls \<^verbatim>\<open>linkAssets\<close> (line 72);
  \<^item> \<open>MArticles\<close>: \<^verbatim>\<open>generateArticleJobs()\<close> and \<^verbatim>\<open>errors <- err\<close> (lines 76 and 77);
  \<^item> \<open>MPages a\<close>: \<^verbatim>\<open>generatePageJobs()\<close> and \<^verbatim>\<open>errors <- err\<close> (lines 79 and 80), with
    \<^verbatim>\<open>articleJobs\<close> being \<open>a\<close>;
  \<^item> \<open>MAddN a p\<close>: \<^verbatim>\<open>wg.Add(len(articleJobs) + len(pageJobs))\<close> (line 82);
  \<^item> \<open>MPush js\<close>: \<^verbatim>\<open>jobs <- job\<close> in the loop of line 83, with \<open>js\<close> still to send;
  \<^item> \<open>MWait\<close>: \<^verbatim>\<open>wg.Wait()\<close> (line 87); \<open>MReturned\<close>: \<^verbatim>\<open>main\<close> has returned.

  The reader of \<^verbatim>\<open>errors\<close> waits to receive (\<open>DRecv\<close>) or has received a value and tests it
  (\<open>DGot\<close>, line 45). A worker waits to receive a job (\<open>WIdle\<close>, line 63), holds a job it
  has yet to call (\<open>WHave\<close>), sends what the job returned (\<open>WSend\<close>, line 64) or calls
  \<^verbatim>\<open>wg.Done()\<close> (\<open>WDone\<close>, line 65). The process ends when \<^verbatim>\<open>main\<close> returns or with a
  panic.
\<close>

datatype mpc =
    MSendMkdir
  | MSpawn nat
  | MAdd1
  | MSendLink
  | MArticles
  | MPages "job list"
  | MAddN "job list" "job list"
  | MPush "job list"
  | MWait
  | MReturned

datatype dstate = DRecv | DGot "error option"

datatype wstate = WIdle | WHave job | WSend "error option" | WDone

datatype ending = Exited | Panicked error

datatype tid = TMain | TDrainer | TWorker nat

record gstate =
  mainpc :: mpc
  drainer :: dstate
  workers :: "wstate list"
  jobsq :: "job list"
  wg :: int
  ran :: "job list"
  ended :: "ending option"

definition init_go :: gstate where
  "init_go = \<lparr>mainpc = MSendMkdir, drainer = DRecv, workers = [], jobsq = [], wg = 0,
              ran = [], ended = None\<rparr>"

definition jobs_or_nil :: "error + job list \<Rightarrow> job list" where
  "jobs_or_nil r = (case r of Inl err \<Rightarrow> [] | Inr js \<Rightarrow> js)"

definition err_of :: "error + 'a \<Rightarrow> error option" where
  "err_of r = (case r of Inl err \<Rightarrow> Some err | Inr x \<Rightarrow> None)"

definition after_push :: "job list \<Rightarrow> mpc" where
  "after_push js = (if js = [] then MWait else MPush js)"

fun step_main :: "nat \<Rightarrow> Env_go \<Rightarrow> gstate \<Rightarrow> gstate option" where
  "step_main n env s =
     (case mainpc s of
        MSendMkdir \<Rightarrow>
          if drainer s = DRecv
          then Some (s\<lparr>drainer := DGot (mkdirAll env), mainpc := MSpawn 0\<rparr>)
          else None
      | MSpawn i \<Rightarrow>
          if i < n then Some (s\<lparr>workers := workers s @ [WIdle], mainpc := MSpawn (i + 1)\<rparr>)
          else Some (s\<lparr>mainpc := MAdd1\<rparr>)
      | MAdd1 \<Rightarrow> Some (s\<lparr>wg := wg s + 1, mainpc := MSendLink\<rparr>)
      | MSendLink \<Rightarrow>
          if length (jobsq s) < jobs_capacity
          then Some (s\<lparr>jobsq := jobsq s @ [LinkAssets], mainpc := MArticles\<rparr>)
          else None
      | MArticles \<Rightarrow>
          if drainer s = DRecv
          then (let r = generateArticleJobs (readArticlesDir env)
                in Some (s\<lparr>drainer := DGot (err_of r), mainpc := MPages (jobs_or_nil r)\<rparr>))
          else None
      | MPages articleJobs \<Rightarrow>
          if drainer s = DRecv
          then (let r = generatePageJobs (readPagesDir env)
                in Some (s\<lparr>drainer := DGot (err_of r),
                           mainpc := MAddN articleJobs (jobs_or_nil r)\<rparr>))
          else None
      | MAddN articleJobs pageJobs \<Rightarrow>
          Some (s\<lparr>wg := wg s + int (length articleJobs + length pageJobs),
                  mainpc := after_push (articleJobs @ pageJobs)\<rparr>)
      | MPush js \<Rightarrow>
          (case js of
             [] \<Rightarrow> Some (s\<lparr>mainpc := MWait\<rparr>)
           | j # rest \<Rightarrow>
               if length (jobsq s) < jobs_capacity
               then Some (s\<lparr>jobsq := jobsq s @ [j], mainpc := after_push rest\<rparr>)
               else None)
      | MWait \<Rightarrow>
          if wg s = 0 then Some (s\<lparr>ended := Some Exited, mainpc := MReturned\<rparr>) else None
      | MReturned \<Rightarrow> None)"

fun step_drainer :: "gstate \<Rightarrow> gstate option" where
  "step_drainer s =
     (case drainer s of
        DRecv \<Rightarrow> None
      | DGot None \<Rightarrow> Some (s\<lparr>drainer := DRecv\<rparr>)
      | DGot (Some err) \<Rightarrow> Some (s\<lparr>ended := Some (Panicked err)\<rparr>))"

fun step_worker :: "Env_go \<Rightarrow> nat \<Rightarrow> gstate \<Rightarrow> gstate option" where
  "step_worker env i s =
     (if i < length (workers s) then
        (case workers s ! i of
           WIdle \<Rightarrow>
             (case jobsq s of
                [] \<Rightarrow> None
              | j # rest \<Rightarrow> Some (s\<lparr>jobsq := rest, workers := (workers s)[i := WHave j]\<rparr>))
         | WHave j \<Rightarrow>
             Some (s\<lparr>ran := ran s @ [j], workers := (workers s)[i := WSend (runJob env j)]\<rparr>)
         | WSend r \<Rightarrow>
             if drainer s = DRecv
             then Some (s\<lparr>drainer := DGot r, workers := (workers s)[i := WDone]\<rparr>)
             else None
         | WDone \<Rightarrow>
             if wg s - 1 < 0
             then Some (s\<lparr>ended := Some (Panicked ''sync: negative WaitGroup counter'')\<rparr>)
             else Some (s\<lparr>wg := wg s - 1, workers := (workers s)[i := WIdle]\<rparr>))
      else None)"

definition step :: "nat \<Rightarrow> Env_go \<Rightarrow> gstate \<Rightarrow> tid \<Rightarrow> gstate option" where
  "step n env s t =
     (if ended s \<noteq> None then None
      else case t of
             TMain \<Rightarrow> step_main n env s
           | TDrainer \<Rightarrow> step_drainer s
           | TWorker i \<Rightarrow> step_worker env i s)"

fun run_go :: "nat \<Rightarrow> Env_go \<Rightarrow> gstate \<Rightarrow> tid list \<Rightarrow> gstate" where
  "run_go n env s [] = s"
| "run_go n env s (t # ts) =
     (case step n env s t of
        None \<Rightarrow> run_go n env s ts
      | Some s' \<Rightarrow> run_go n env s' ts)"


definition sched_start :: "nat \<Rightarrow> tid list" where
  "sched_start n = [TMain, TDrainer] @ replicate (n + 1) TMain @ [TMain, TMain]"



definition sched_job_panics :: "nat \<Rightarrow> tid list" where
  "sched_job_panics n = sched_start n @ [TWorker 0, TWorker 0, TWorker 0, TDrainer]"

definition sched_listing_panics :: "nat \<Rightarrow> tid list" where
  "sched_listing_panics n = sched_start n @ [TWorker 0, TWorker 0, TMain, TDrainer]"

text \<open>
  Bookkeeping for the invariant: the jobs \<^verbatim>\<open>main\<close> submits in a complete run, the jobs it
  has yet to send from where it is, the jobs counted by \<^verbatim>\<open>wg.Add\<close> and not yet sent, the
  job a worker holds and has not invoked, and whether a worker has invoked its job and
  not yet called \<^verbatim>\<open>wg.Done()\<close>.
\<close>

definition articleJobs_of :: "Env_go \<Rightarrow> job list" where
  "articleJobs_of env = jobs_or_nil (generateArticleJobs (readArticlesDir env))"

definition pageJobs_of :: "Env_go \<Rightarrow> job list" where
  "pageJobs_of env = jobs_or_nil (generatePageJobs (readPagesDir env))"

definition submitted :: "Env_go \<Rightarrow> job list" where
  "submitted env = LinkAssets # articleJobs_of env @ pageJobs_of env"








section \<open>Concrete inputs\<close>

text \<open>The inputs the theorems below are instantiated at.\<close>

definition conf0 :: Conf where
  "conf0 = \<lparr>Concurrency = 3, GoogleAnalyticsID = ''UA-1'', LocalFonts = False, Verbose = False\<rparr>"

definition locals0 :: "(string \<times> unit iface) list" where
  "locals0 = [(''Foo'', VString ''Bar''), (''Title'', VString ''Mine'')]"

definition failing :: "nat \<Rightarrow> error option" where
  "failing j = Some ''error''"

definition third_fails :: "nat \<Rightarrow> error option" where
  "third_fails j = (if j = 2 then Some ''error'' else None)"

definition three :: "nat Task list" where
  "three = [NewTask 0, NewTask 1, NewTask 2]"

definition ten :: "nat Task list" where
  "ten = [NewTask 0, NewTask 1, NewTask 2, NewTask 3, NewTask 4, NewTask 5, NewTask 6,
          NewTask 7, NewTask 8, NewTask 9]"

definition eleven :: "nat Task list" where
  "eleven = [NewTask 0, NewTask 1, NewTask 2, NewTask 3, NewTask 4, NewTask 5, NewTask 6,
             NewTask 7, NewTask 8, NewTask 9, NewTask 10]"

definition env0 :: Env where
  "env0 = \<lparr>decodeEnv = Inr conf0, createOutputDirs = None,
            readArticles = Inr [''.gitkeep'', ''hello.md''],
            execJob = (\<lambda>j. if j = CompileArticle ''hello.md'' then Some ''no template'' else None)\<rparr>"

definition fonts_src :: path where
  "fonts_src = [''content'', ''fonts'']"

definition fonts_dst :: path where
  "fonts_dst = [''public'', ''fonts'']"

definition fs_empty_target :: filesystem where
  "fs_empty_target = [[''public''] \<mapsto> Dir]"
definition fs_file_at_dest :: filesystem where
  "fs_file_at_dest = [[''public''] \<mapsto> Dir, fonts_dst \<mapsto> File]"
definition fs_loop_at_dest :: filesystem where
  "fs_loop_at_dest = [[''public''] \<mapsto> Dir, fonts_dst \<mapsto> Symlink fonts_dst]"

definition fs_old_link :: filesystem where
  "fs_old_link = [[''public''] \<mapsto> Dir, [''content''] \<mapsto> Dir, [''content'', ''old''] \<mapsto> Dir,
                  fonts_dst \<mapsto> Symlink [''content'', ''old'']]"

definition env_no_articles :: Env_go where
  "env_no_articles = \<lparr>mkdirAll = None, readArticlesDir = Inl ''open ./articles/: no such file or directory'',
      readPagesDir = Inr [''about.ace''], runJob = (\<lambda>j. None)\<rparr>"

definition env_link_fails :: Env_go where
  "env_link_fails = \<lparr>mkdirAll = None, readArticlesDir = Inr [''hello.md''],
      readPagesDir = Inr [''about.ace''],
      runJob = (\<lambda>j. if j = LinkAssets then Some ''symlink: file exists'' else None)\<rparr>"


definition env_unreadable :: Env where
  "env_unreadable = \<lparr>decodeEnv = Inr conf0, createOutputDirs = None,
            readArticles = Inl ''open content/articles: no such file or directory'',
            execJob = (\<lambda>j. None)\<rparr>"

section \<open>Properties of the reporter\<close>

lemma Err_run_task: "Err (run_task exec t) = exec (Job t)"
  by (simp add: Err_def run_task_def outcome_of_def split: option.splits)

lemma Job_run_task: "Job (run_task exec t) = Job t"
  by (simp add: run_task_def)

lemma recorded_Nil: "recorded [] = []" by (simp add: recorded_def)
lemma recorded_Cons: "recorded (t # ts) = (case Err t of None \<Rightarrow> recorded ts | Some e \<Rightarrow> e # recorded ts)"
  by (simp add: recorded_def split: option.splits)

lemma report_eq:
  "n < 10 \<Longrightarrow> report n ts =
     (if 10 \<le> n + length (recorded ts)
      then map LogError (take (10 - n) (recorded ts)) @ [LogError ''Too many errors.'']
      else map LogError (recorded ts))"
proof (induction ts arbitrary: n)
  case Nil
  then show ?case by (simp add: recorded_Nil)
next
  case (Cons t ts)
  show ?case
  proof (cases "Err t")
    case None
    with Cons show ?thesis by (simp add: recorded_Cons)
  next
    case (Some e)
    show ?thesis
    proof (cases "n = 9")
      case True
      with Some show ?thesis by (simp add: recorded_Cons)
    next
      case False
      with Cons.prems have lt: "Suc n < 10" by simp
      have tk: "take (10 - n) (e # recorded ts) = e # take (10 - Suc n) (recorded ts)"
      proof -
        have "10 - n = Suc (10 - Suc n)" using lt by arith
        then show ?thesis by (simp only: take_Suc_Cons)
      qed
      have rc: "recorded (t # ts) = e # recorded ts"
        using Some by (simp add: recorded_Cons)
      have step: "report n (t # ts) = LogError e # report (Suc n) ts"
        using Some lt by simp
      show ?thesis unfolding step rc tk Cons.IH[OF lt] by simp
    qed
  qed
qed

lemma recorded_run: "recorded (map (run_task exec) tasks) = failures exec tasks"
  by (induction tasks) (simp_all add: recorded_def failures_def Err_run_task Job_run_task split: option.splits)

lemma length_failures: "length (failures exec tasks) = length (filter (\<lambda>t. exec (Job t) \<noteq> None) tasks)"
  by (induction tasks) (auto simp add: failures_def split: option.splits)

lemma HasErrors_run:
  "HasErrors \<lparr>Tasks = map (run_task exec) tasks, workerCount = n\<rparr> = (failures exec tasks \<noteq> [])"
  by (induction tasks) (auto simp add: HasErrors_def failures_def Err_run_task split: option.splits)

lemma runTasks_eq:
  "0 < Concurrency conf \<Longrightarrow>
   runTasks exec conf tasks =
     Some (if 10 \<le> length (failures exec tasks)
           then map LogError (take 10 (failures exec tasks)) @ [LogError ''Too many errors.'']
           else map LogError (failures exec tasks),
           failures exec tasks = [])"
  using report_eq[of 0 "map (run_task exec) tasks"]
  by (simp add: runTasks_def Run_def NewPool_def recorded_run HasErrors_run)

lemma failures_Nil_iff: "(failures exec tasks = []) = (\<forall>t\<in>set tasks. exec (Job t) = None)"
  by (induction tasks) (auto simp add: failures_def split: option.splits)

lemma HasErrors_iff_Failed: "HasErrors p = (\<exists>t\<in>set (Tasks p). \<exists>e. Outcome t = Failed e)"
proof -
  have "\<And>t::'a Task. (Err t \<noteq> None) = (\<exists>e. Outcome t = Failed e)"
  proof -
    fix t :: "'a Task"
    show "(Err t \<noteq> None) = (\<exists>e. Outcome t = Failed e)"
      by (cases "Outcome t") (simp_all add: Err_def)
  qed
  then show ?thesis by (simp add: HasErrors_def list_ex_iff)
qed

lemma tasksForArticles_Inr: "tasksForArticles (Inr files) = Inr (tasksForArticles_loop files [])"
  by (simp add: tasksForArticles_def)

lemma main_runs_all:
  assumes c: "0 < Concurrency conf"
    and e: "decodeEnv env = Inr conf" "createOutputDirs env = None" "readArticles env = Inr files"
  shows "\<exists>r. main env = Some r
           \<and> executed r = map Job (fixedTasks @ tasksForArticles_loop files [])
           \<and> status r = (if \<exists>j\<in>set (executed r). execJob env j \<noteq> None then 1 else 0)"
proof -
  let ?T = "fixedTasks @ tasksForArticles_loop files []"
  obtain lines where rt: "runTasks (execJob env) conf ?T =
      Some (lines, \<forall>t\<in>set ?T. execJob env (Job t) = None)"
    using runTasks_eq [OF c, of "execJob env" ?T] by (simp add: failures_Nil_iff)
  have "main env = Some \<lparr>status = (if \<forall>t\<in>set ?T. execJob env (Job t) = None then 0 else 1),
            logged = lines, executed = map Job ?T\<rparr>"
    unfolding main_def e tasksForArticles_Inr by (simp add: rt Let_def)
  then show ?thesis by auto
qed

text \<open>
  Claim C1. For every task list, once the pool's \<open>Run\<close> has returned (it does for a
  positive worker count), \<open>runTasks\<close> returns true exactly when \<open>HasErrors\<close> is false,
  that is when no Task has a failed outcome, that is when no job returned an error; and
  \<open>main\<close>, once configuration, output directories and the article listing are in place,
  exits with status 1 when some job failed and with status 0 when none did.
\<close>

theorem runTasks_verdict:
  assumes "0 < Concurrency conf"
  shows "\<exists>p lines.
           Run exec (NewPool tasks (Concurrency conf)) = Some p
         \<and> runTasks exec conf tasks = Some (lines, \<not> HasErrors p)
         \<and> HasErrors p = (\<exists>t\<in>set (Tasks p). \<exists>e. Outcome t = Failed e)
         \<and> HasErrors p = (\<exists>t\<in>set tasks. exec (Job t) \<noteq> None)
         \<and> (decodeEnv env = Inr conf \<and> createOutputDirs env = None \<and> readArticles env = Inr files
            \<longrightarrow> (\<exists>r. main env = Some r
                   \<and> executed r = map Job (fixedTasks @ tasksForArticles_loop files [])
                   \<and> status r = (if \<exists>j\<in>set (executed r). execJob env j \<noteq> None then 1 else 0)))"
proof -
  let ?p = "\<lparr>Tasks = map (run_task exec) tasks, workerCount = Concurrency conf\<rparr>"
  have r: "Run exec (NewPool tasks (Concurrency conf)) = Some ?p"
    using assms by (simp add: Run_def NewPool_def)
  have h: "HasErrors ?p = (\<exists>t\<in>set tasks. exec (Job t) \<noteq> None)"
    by (simp add: HasErrors_run failures_Nil_iff)
  have t: "runTasks exec conf tasks = Some (report 0 (Tasks ?p), \<not> HasErrors ?p)"
    using assms by (simp add: runTasks_def Run_def NewPool_def)
  have m: "decodeEnv env = Inr conf \<and> createOutputDirs env = None \<and> readArticles env = Inr files
            \<longrightarrow> (\<exists>r. main env = Some r
                   \<and> executed r = map Job (fixedTasks @ tasksForArticles_loop files [])
                   \<and> status r = (if \<exists>j\<in>set (executed r). execJob env j \<noteq> None then 1 else 0))"
    using main_runs_all [OF assms, of env files] by blast
  show ?thesis
    using r t h m HasErrors_iff_Failed [of ?p] by blast
qed

theorem runTasks_verdict_witness:
  "0 < Concurrency conf0
   \<and> (\<exists>lines. runTasks third_fails conf0 three = Some (lines, False))
   \<and> (\<exists>r. main env0 = Some r \<and> status r = 1)"
proof -
  have c: "0 < Concurrency conf0" by (simp add: conf0_def)
  have e: "decodeEnv env0 = Inr conf0 \<and> createOutputDirs env0 = None
      \<and> readArticles env0 = Inr [''.gitkeep'', ''hello.md'']"
    by (simp add: env0_def)
  have f: "\<exists>t\<in>set three. third_fails (Job t) \<noteq> None"
    by (simp add: three_def third_fails_def NewTask_def)
  note V = runTasks_verdict [OF c, of third_fails three env0 "[''.gitkeep'', ''hello.md'']"]
  from V obtain p where "\<exists>lines.
           Run third_fails (NewPool three (Concurrency conf0)) = Some p
         \<and> runTasks third_fails conf0 three = Some (lines, \<not> HasErrors p)
         \<and> HasErrors p = (\<exists>t\<in>set (Tasks p). \<exists>e. Outcome t = Failed e)
         \<and> HasErrors p = (\<exists>t\<in>set three. third_fails (Job t) \<noteq> None)
         \<and> (decodeEnv env0 = Inr conf0 \<and> createOutputDirs env0 = None
              \<and> readArticles env0 = Inr [''.gitkeep'', ''hello.md'']
            \<longrightarrow> (\<exists>r. main env0 = Some r
                   \<and> executed r = map Job (fixedTasks @ tasksForArticles_loop [''.gitkeep'', ''hello.md''] [])
                   \<and> status r = (if \<exists>j\<in>set (executed r). execJob env0 j \<noteq> None then 1 else 0)))" ..
  then obtain lines where L:
          "Run third_fails (NewPool three (Concurrency conf0)) = Some p
         \<and> runTasks third_fails conf0 three = Some (lines, \<not> HasErrors p)
         \<and> HasErrors p = (\<exists>t\<in>set (Tasks p). \<exists>e. Outcome t = Failed e)
         \<and> HasErrors p = (\<exists>t\<in>set three. third_fails (Job t) \<noteq> None)
         \<and> (decodeEnv env0 = Inr conf0 \<and> createOutputDirs env0 = None
              \<and> readArticles env0 = Inr [''.gitkeep'', ''hello.md'']
            \<longrightarrow> (\<exists>r. main env0 = Some r
                   \<and> executed r = map Job (fixedTasks @ tasksForArticles_loop [''.gitkeep'', ''hello.md''] [])
                   \<and> status r = (if \<exists>j\<in>set (executed r). execJob env0 j \<noteq> None then 1 else 0)))" ..
  note v1 = L [THEN conjunct2, THEN conjunct1]
  note v2 = L [THEN conjunct2, THEN conjunct2, THEN conjunct2, THEN conjunct1]
  note v3 = L [THEN conjunct2, THEN conjunct2, THEN conjunct2, THEN conjunct2, rule_format, OF e]
  from v3 obtain r where R: "main env0 = Some r
      \<and> executed r = map Job (fixedTasks @ tasksForArticles_loop [''.gitkeep'', ''hello.md''] [])
      \<and> status r = (if \<exists>j\<in>set (executed r). execJob env0 j \<noteq> None then 1 else 0)" ..
  note r = R [THEN conjunct1] R [THEN conjunct2, THEN conjunct1] R [THEN conjunct2, THEN conjunct2]
  have x: "CompileArticle ''hello.md'' \<in> set (executed r)"
    unfolding r(2) by (simp add: fixedTasks_def NewTask_def isHidden_def HasPrefix_def)
  have y: "execJob env0 (CompileArticle ''hello.md'') \<noteq> None"
    by (simp add: env0_def)
  from x y have "\<exists>j\<in>set (executed r). execJob env0 j \<noteq> None" by blast
  with r(3) have "status r = 1" by simp
  with r(1) have m: "\<exists>r. main env0 = Some r \<and> status r = 1" by blast
  from v1 v2 f have "runTasks third_fails conf0 three = Some (lines, False)" by simp
  then have t: "\<exists>lines. runTasks third_fails conf0 three = Some (lines, False)" by blast
  show ?thesis using c t m by blast
qed

text \<open>
  Claim C2. For every task list in which exactly 11 jobs fail, \<open>runTasks\<close> logs the first
  ten failures in submission order, one line each, then the line "Too many errors.", and
  returns false.
\<close>

theorem runTasks_eleven_failures:
  assumes "0 < Concurrency conf"
    and "length (filter (\<lambda>t. exec (Job t) \<noteq> None) tasks) = 11"
  shows "runTasks exec conf tasks =
           Some (map LogError (take 10 (failures exec tasks)) @ [LogError ''Too many errors.''], False)
       \<and> length (take 10 (failures exec tasks)) = 10"
proof -
  have l: "length (failures exec tasks) = 11"
    using assms(2) by (simp add: length_failures)
  then have ne: "failures exec tasks \<noteq> []" by auto
  show ?thesis using runTasks_eq [OF assms(1), of exec tasks] l ne by simp
qed

lemma failures_eleven: "failures failing eleven = replicate 11 ''error''"
  by (simp add: failures_def eleven_def failing_def NewTask_def map_filter_simps numeral_eq_Suc)

theorem runTasks_eleven_failures_witness:
  "0 < Concurrency conf0
   \<and> length (filter (\<lambda>t. failing (Job t) \<noteq> None) eleven) = 11
   \<and> runTasks failing conf0 eleven =
       Some (replicate 10 (LogError ''error'') @ [LogError ''Too many errors.''], False)"
proof -
  have c: "0 < Concurrency conf0" by (simp add: conf0_def)
  have n: "length (filter (\<lambda>t. failing (Job t) \<noteq> None) eleven) = 11"
    by (simp add: eleven_def failing_def)
  have tk: "map LogError (take 10 (failures failing eleven)) = replicate 10 (LogError ''error'')"
    by (simp add: failures_eleven numeral_eq_Suc)
  show ?thesis
    using c n runTasks_eleven_failures [OF c n, THEN conjunct1] unfolding tk by simp
qed

text \<open>
  Claim C9. For every task list in which exactly 10 jobs fail, \<open>runTasks\<close> logs the ten
  failures and then also the line "Too many errors.", although no failure is left.
\<close>

theorem runTasks_ten_failures:
  assumes "0 < Concurrency conf"
    and "length (filter (\<lambda>t. exec (Job t) \<noteq> None) tasks) = 10"
  shows "runTasks exec conf tasks =
           Some (map LogError (failures exec tasks) @ [LogError ''Too many errors.''], False)
       \<and> length (failures exec tasks) = 10"
proof -
  have l: "length (failures exec tasks) = 10"
    using assms(2) by (simp add: length_failures)
  then have ne: "failures exec tasks \<noteq> []" by auto
  show ?thesis using runTasks_eq [OF assms(1), of exec tasks] l ne by simp
qed

lemma failures_ten: "failures failing ten = replicate 10 ''error''"
  by (simp add: failures_def ten_def failing_def NewTask_def numeral_eq_Suc)

theorem runTasks_ten_failures_witness:
  "0 < Concurrency conf0
   \<and> length (filter (\<lambda>t. failing (Job t) \<noteq> None) ten) = 10
   \<and> runTasks failing conf0 ten =
       Some (replicate 10 (LogError ''error'') @ [LogError ''Too many errors.''], False)"
proof -
  have c: "0 < Concurrency conf0" by (simp add: conf0_def)
  have n: "length (filter (\<lambda>t. failing (Job t) \<noteq> None) ten) = 10"
    by (simp add: ten_def failing_def)
  have tk: "map LogError (failures failing ten) = replicate 10 (LogError ''error'')"
    by (simp add: failures_ten)
  show ?thesis
    using c n runTasks_ten_failures [OF c n, THEN conjunct1] unfolding tk by simp
qed

section \<open>Properties of job generation\<close>

lemma isHidden_iff: "isHidden name = (\<exists>rest. name = CHR ''.'' # rest)"
  by (cases name) (auto simp add: isHidden_def HasPrefix_def)

lemma tasksForArticles_loop_eq:
  "tasksForArticles_loop files tasks =
     tasks @ map (\<lambda>name. NewTask (CompileArticle name)) (filter (\<lambda>name. \<not> isHidden name) files)"
  by (induction files arbitrary: tasks) simp_all

text \<open>
  Claim C6, as amended. \<open>tasksForArticles\<close> makes one task per entry of the articles
  listing whose name does not start with a dot, in the order of the listing, and none for
  an entry whose name starts with a dot. \<open>generateArticleJobs\<close> and \<open>generatePageJobs\<close>
  of the channel-based command make one job per entry, hidden or not.
\<close>

theorem tasksForArticles_filters_hidden:
  "tasksForArticles (Inr files) =
     Inr (map (\<lambda>name. NewTask (CompileArticle name)) (filter (\<lambda>name. \<not> isHidden name) files))
   \<and> isHidden name = (\<exists>rest. name = CHR ''.'' # rest)
   \<and> generateArticleJobs (Inr files) = Inr (map RenderArticle files)
   \<and> generatePageJobs (Inr files) = Inr (map (\<lambda>name. RenderPage (trimExtension name)) files)"
  by (simp add: tasksForArticles_def tasksForArticles_loop_eq isHidden_iff
      generateArticleJobs_def generatePageJobs_def)

theorem tasksForArticles_filters_hidden_witness:
  "tasksForArticles (Inr [''.gitkeep'', ''hello.md'']) = Inr [NewTask (CompileArticle ''hello.md'')]"
  using tasksForArticles_filters_hidden [of "[''.gitkeep'', ''hello.md'']" "''.gitkeep''"]
  by (simp add: isHidden_def HasPrefix_def)

text \<open>
  The claim as stated fails on the channel-based command: the hidden entry
  \<^verbatim>\<open>.gitkeep\<close> of an articles listing gets a job.
\<close>

theorem generateArticleJobs_keeps_hidden:
  "isHidden ''.gitkeep'' \<and>
   generateArticleJobs (Inr [''.gitkeep'', ''article.md'']) =
     Inr [RenderArticle ''.gitkeep'', RenderArticle ''article.md'']"
  by (simp add: isHidden_def HasPrefix_def generateArticleJobs_def)

section \<open>Properties of \<^verbatim>\<open>getLocals\<close>\<close>

lemma getLocals_loop_eq:
  "distinct (map fst locals) \<Longrightarrow>
   getLocals_loop locals defaults k =
     (case map_of locals k of Some v \<Rightarrow> Some v | None \<Rightarrow> defaults k)"
proof (induction locals arbitrary: defaults)
  case Nil
  then show ?case by simp
next
  case (Cons kv locals)
  obtain k' v' where kv: "kv = (k', v')" by (cases kv)
  from Cons.prems kv have d: "distinct (map fst locals)" and nin: "k' \<notin> fst ` set locals"
    by simp_all
  from nin have none: "map_of locals k' = None"
    by (simp add: map_of_eq_None_iff)
  have step: "getLocals_loop (kv # locals) defaults k =
      (case map_of locals k of Some v \<Rightarrow> Some v | None \<Rightarrow> (defaults(k' \<mapsto> v')) k)"
    using Cons.IH[OF d, of "defaults(k' \<mapsto> v')"] by (simp only: kv getLocals_loop.simps)
  show ?case
  proof (cases "k = k'")
    case True
    with none show ?thesis unfolding step by (simp add: kv)
  next
    case False
    then show ?thesis unfolding step by (simp add: kv split: option.splits)
  qed
qed

lemma getLocals_loop_dom:
  "dom (getLocals_loop locals defaults) = fst ` set locals \<union> dom defaults"
proof (induction locals arbitrary: defaults)
  case Nil
  then show ?case by simp
next
  case (Cons kv locals)
  obtain k' v' where kv: "kv = (k', v')" by (cases kv)
  have "dom (getLocals_loop (kv # locals) defaults) = fst ` set locals \<union> dom (defaults(k' \<mapsto> v'))"
    by (simp only: kv getLocals_loop.simps Cons.IH)
  also have "\<dots> = fst ` set (kv # locals) \<union> dom defaults"
    by (simp add: kv)
  finally show ?case .
qed

text \<open>
  Claim C10. For every title and every \<open>locals\<close> (each key once, in any order of
  iteration), the map \<open>getLocals\<close> returns has every entry of \<open>locals\<close>, has the default
  (\<open>GoogleAnalyticsID\<close>, \<open>LocalFonts\<close>, \<open>Release\<close>, \<open>Title\<close>, \<open>ViewportWidth\<close>) for every
  key \<open>locals\<close> does not have, and has no other key; so a key of \<open>locals\<close>, \<open>Title\<close>
  included, wins over the default.
\<close>

theorem getLocals_merges:
  assumes "distinct (map fst locals)"
  shows "(\<forall>k v. (k, v) \<in> set locals \<longrightarrow> getLocals conf release title locals k = Some v)
    \<and> (\<forall>k. k \<notin> fst ` set locals \<longrightarrow>
          getLocals conf release title locals k = getLocals_defaults conf release title k)
    \<and> getLocals_defaults conf release title ''GoogleAnalyticsID'' = Some (VString (GoogleAnalyticsID conf))
    \<and> getLocals_defaults conf release title ''LocalFonts'' = Some (VBool (LocalFonts conf))
    \<and> getLocals_defaults conf release title ''Release'' = Some (VString release)
    \<and> getLocals_defaults conf release title ''Title'' = Some (VString title)
    \<and> getLocals_defaults conf release title ''ViewportWidth'' = Some (VString ''device-width'')
    \<and> dom (getLocals conf release title locals) =
         fst ` set locals \<union>
         {''GoogleAnalyticsID'', ''LocalFonts'', ''Release'', ''Title'', ''ViewportWidth''}"
proof -
  have a: "\<forall>k v. (k, v) \<in> set locals \<longrightarrow> getLocals conf release title locals k = Some v"
  proof (intro allI impI)
    fix k v assume "(k, v) \<in> set locals"
    with assms have "map_of locals k = Some v" by simp
    then show "getLocals conf release title locals k = Some v"
      using assms by (simp add: getLocals_def getLocals_loop_eq)
  qed
  have b: "\<forall>k. k \<notin> fst ` set locals \<longrightarrow>
          getLocals conf release title locals k = getLocals_defaults conf release title k"
  proof (intro allI impI)
    fix k assume "k \<notin> fst ` set locals"
    then have "map_of locals k = None" by (simp only: map_of_eq_None_iff not_False_eq_True)
    then show "getLocals conf release title locals k = getLocals_defaults conf release title k"
      using assms by (simp add: getLocals_def getLocals_loop_eq)
  qed
  have c: "dom (getLocals_defaults conf release title :: string \<rightharpoonup> 'a iface) =
         {''GoogleAnalyticsID'', ''LocalFonts'', ''Release'', ''Title'', ''ViewportWidth''}"
    by (auto simp add: getLocals_defaults_def split: if_splits)
  have d: "dom (getLocals conf release title locals) =
         fst ` set locals \<union>
         {''GoogleAnalyticsID'', ''LocalFonts'', ''Release'', ''Title'', ''ViewportWidth''}"
    by (simp only: getLocals_def getLocals_loop_dom c)
  show ?thesis using a b d by (simp add: getLocals_defaults_def)
qed

theorem getLocals_merges_witness:
  "distinct (map fst locals0)
   \<and> getLocals conf0 ''1'' ''Title'' locals0 ''Foo'' = Some (VString ''Bar'')
   \<and> getLocals conf0 ''1'' ''Title'' locals0 ''Title'' = Some (VString ''Mine'')
   \<and> getLocals conf0 ''1'' ''Title'' locals0 ''Release'' = Some (VString ''1'')"
proof -
  have d: "distinct (map fst locals0)" by (simp add: locals0_def)
  note m = getLocals_merges [OF d, of conf0 "''1''" "''Title''"]
  note a = m [THEN conjunct1, rule_format]
  note b = m [THEN conjunct2, THEN conjunct1, rule_format]
  note c = m [THEN conjunct2, THEN conjunct2, THEN conjunct2, THEN conjunct2, THEN conjunct1]
  have 1: "getLocals conf0 ''1'' ''Title'' locals0 ''Foo'' = Some (VString ''Bar'')"
    by (rule a) (simp add: locals0_def)
  have 2: "getLocals conf0 ''1'' ''Title'' locals0 ''Title'' = Some (VString ''Mine'')"
    by (rule a) (simp add: locals0_def)
  have 3: "getLocals conf0 ''1'' ''Title'' locals0 ''Release'' = Some (VString ''1'')"
    using b [of "''Release''"] c by (simp add: locals0_def)
  show ?thesis using d 1 2 3 by simp
qed

section \<open>Properties of \<^verbatim>\<open>ensureSymlink\<close>\<close>

lemma under_refl: "under p p"
  by (simp add: under_def)

lemma not_under_butlast: "p \<noteq> [] \<Longrightarrow> \<not> under p (butlast p)"
proof
  assume ne: "p \<noteq> []" and u: "under p (butlast p)"
  from u have "length (take (length p) (butlast p)) = length p" by (simp only: under_def)
  with ne show False by (cases p) (simp_all add: min_def split: if_splits)
qed

lemma Stat_root: "Stat fs [] = Inr Dir"
  by (simp add: Stat_def lookup_def numeral_eq_Suc)

lemma Stat_missing: "lookup fs p = None \<Longrightarrow> Stat fs p = Inl ENOENT"
  by (simp add: Stat_def numeral_eq_Suc)

lemma Readlink_root: "Readlink fs [] = Inl EINVAL"
  by (simp add: Readlink_def lookup_def)

lemma Readlink_Inr: "(Readlink fs p = Inr t) = (lookup fs p = Some (Symlink t))"
  by (simp add: Readlink_def split: option.splits node.splits)

lemma removed_apply: "removed fs p q = (if under p q then None else fs q)"
  by (simp add: removed_def RemoveAll_def)

lemma removed_removed: "removed (removed fs p) p = removed fs p"
  by (rule ext) (simp add: removed_apply)

lemma removed_upd: "removed ((removed fs p)(p \<mapsto> n)) p = removed fs p"
  by (rule ext) (auto simp add: removed_apply under_refl)

lemma lookup_removed_self: "p \<noteq> [] \<Longrightarrow> lookup (removed fs p) p = None"
  by (simp add: lookup_def removed_apply under_refl)

lemma lookup_removed_parent: "p \<noteq> [] \<Longrightarrow> lookup (removed fs p) (butlast p) = lookup fs (butlast p)"
  by (simp add: lookup_def removed_apply not_under_butlast)

lemma lookup_upd_parent: "p \<noteq> [] \<Longrightarrow> lookup (fs(p \<mapsto> n)) (butlast p) = lookup fs (butlast p)"
proof -
  assume "p \<noteq> []"
  then have "butlast p \<noteq> p" by (metis length_butlast diff_less length_greater_0_conv less_irrefl zero_less_one)
  then show ?thesis by (simp add: lookup_def)
qed

lemma create_eq:
  "dest \<noteq> [] \<Longrightarrow>
   ensureSymlink_create fs source dest =
     (case lookup fs (butlast dest) of
        None \<Rightarrow> (Some ENOENT, removed fs dest, [CallRemoveAll dest, CallSymlink source dest])
      | Some Dir \<Rightarrow> (None, (removed fs dest)(dest \<mapsto> Symlink source),
                     [CallRemoveAll dest, CallSymlink source dest])
      | Some File \<Rightarrow> (Some ENOTDIR, removed fs dest, [CallRemoveAll dest, CallSymlink source dest])
      | Some (Symlink target) \<Rightarrow>
          (Some ENOTDIR, removed fs dest, [CallRemoveAll dest, CallSymlink source dest]))"
proof -
  assume ne: "dest \<noteq> []"
  have r: "RemoveAll fs dest = (None, removed fs dest)"
    by (simp add: removed_def RemoveAll_def)
  show ?thesis
    unfolding ensureSymlink_create_def r
    by (simp add: Symlink_call_def lookup_removed_self [OF ne] lookup_removed_parent [OF ne]
        split: option.splits node.splits)
qed

lemma ensureSymlink_cases:
  obtains
    (stat_err) err where "Stat fs dest = Inl err" "err \<noteq> ENOENT"
      "ensureSymlink fs source dest = (Some err, fs, [])"
  | (readlink_err) info err where "Stat fs dest = Inr info" "Readlink fs dest = Inl err"
      "ensureSymlink fs source dest = (Some err, fs, [])"
  | (linked) info where "Stat fs dest = Inr info" "lookup fs dest = Some (Symlink source)"
      "ensureSymlink fs source dest = (None, fs, [])"
  | (create) "dest \<noteq> []" "ensureSymlink fs source dest = ensureSymlink_create fs source dest"
proof (cases "Stat fs dest")
  case (Inl err)
  show ?thesis
  proof (cases "err = ENOENT")
    case True
    from Inl have "dest \<noteq> []" using Stat_root [of fs] by auto
    moreover have "ensureSymlink fs source dest = ensureSymlink_create fs source dest"
      using Inl True by (simp add: ensureSymlink_def IsNotExist_def)
    ultimately show ?thesis by (rule create)
  next
    case False
    have "ensureSymlink fs source dest = (Some err, fs, [])"
      using Inl False by (simp add: ensureSymlink_def IsNotExist_def)
    with Inl False show ?thesis by (rule stat_err)
  qed
next
  case (Inr info)
  show ?thesis
  proof (cases "Readlink fs dest")
    case (Inl err)
    have "ensureSymlink fs source dest = (Some err, fs, [])"
      using Inr Inl by (simp add: ensureSymlink_def)
    with Inr Inl show ?thesis by (rule readlink_err)
  next
    case rl: (Inr actual)
    show ?thesis
    proof (cases "actual = source")
      case True
      have "ensureSymlink fs source dest = (None, fs, [])"
        using Inr rl True by (simp add: ensureSymlink_def)
      moreover have "lookup fs dest = Some (Symlink source)"
        using rl True by (simp add: Readlink_Inr)
      ultimately show ?thesis using Inr linked by blast
    next
      case False
      from rl have "dest \<noteq> []" using Readlink_root [of fs] by auto
      moreover have "ensureSymlink fs source dest = ensureSymlink_create fs source dest"
        using Inr rl False by (simp add: ensureSymlink_def)
      ultimately show ?thesis by (rule create)
    qed
  qed
qed

lemma second_call:
  assumes ne: "dest \<noteq> []" and par: "lookup fs (butlast dest) = Some Dir"
    and fs1: "fs1 = (removed fs dest)(dest \<mapsto> Symlink source)"
  shows "ensureSymlink fs1 source dest =
     (case Stat fs1 dest of
        Inr info \<Rightarrow> (None, fs1, [])
      | Inl err \<Rightarrow>
          if IsNotExist err then (None, fs1, [CallRemoveAll dest, CallSymlink source dest])
          else (Some err, fs1, []))"
proof -
  have l: "lookup fs1 dest = Some (Symlink source)"
    using ne by (simp add: fs1 lookup_def)
  have rl: "Readlink fs1 dest = Inr source"
    using l by (simp add: Readlink_Inr)
  have p1: "lookup fs1 (butlast dest) = Some Dir"
    using ne par by (simp add: fs1 lookup_upd_parent lookup_removed_parent)
  have rm: "removed fs1 dest = removed fs dest"
    by (simp add: fs1 removed_upd)
  have cr: "ensureSymlink_create fs1 source dest =
      (None, fs1, [CallRemoveAll dest, CallSymlink source dest])"
    unfolding create_eq [OF ne] p1 rm by (simp add: fs1)
  show ?thesis
  proof (cases "Stat fs1 dest")
    case (Inl err)
    then show ?thesis by (simp add: ensureSymlink_def cr)
  next
    case (Inr info)
    then show ?thesis by (simp add: ensureSymlink_def rl)
  qed
qed

lemma failed_create_again:
  assumes ne: "dest \<noteq> []" and par: "lookup fs (butlast dest) \<noteq> Some Dir"
  shows "\<exists>err. ensureSymlink_create fs source dest =
            (Some err, removed fs dest, [CallRemoveAll dest, CallSymlink source dest])
        \<and> ensureSymlink (removed fs dest) source dest =
            (Some err, removed fs dest, [CallRemoveAll dest, CallSymlink source dest])"
proof -
  let ?fs1 = "removed fs dest"
  have st: "Stat ?fs1 dest = Inl ENOENT"
    using ne by (simp add: Stat_missing lookup_removed_self)
  have e: "ensureSymlink ?fs1 source dest = ensureSymlink_create ?fs1 source dest"
    by (simp add: ensureSymlink_def st IsNotExist_def)
  have p1: "lookup ?fs1 (butlast dest) = lookup fs (butlast dest)"
    using ne by (simp add: lookup_removed_parent)
  show ?thesis
    unfolding e create_eq [OF ne] p1 removed_removed
    using par by (cases "lookup fs (butlast dest)") (auto split: node.splits)
qed

lemmas fs_eval = Stat_def lookup_def Readlink_def IsNotExist_def ensureSymlink_def
  ensureSymlink_create_def RemoveAll_def Symlink_call_def under_def removed_def
  fonts_src_def fonts_dst_def numeral_eq_Suc

text \<open>
  Claim C7, as amended. Calling \<open>ensureSymlink\<close> twice in a row with the same arguments
  leaves the file system after the second call as it was after the first, and an error of
  the first call is the error of the second. When the first call returns no error, the
  destination is a link to the source afterwards, and the second call makes no changing
  call and returns no error when \<open>Stat\<close> of the destination succeeds; when \<open>Stat\<close> reports
  that nothing is there (the source does not exist) the second call removes the link and
  creates it again; when \<open>Stat\<close> fails otherwise it returns that error and changes nothing.
\<close>

theorem ensureSymlink_twice:
  assumes first: "ensureSymlink fs source dest = (e1, fs1, c1)"
  shows "\<exists>e2 c2. ensureSymlink fs1 source dest = (e2, fs1, c2)
           \<and> (\<forall>err. e1 = Some err \<longrightarrow> e2 = Some err)
           \<and> (e1 = None \<longrightarrow> lookup fs1 dest = Some (Symlink source)
                \<and> (case Stat fs1 dest of
                     Inr info \<Rightarrow> e2 = None \<and> c2 = []
                   | Inl err \<Rightarrow>
                       if IsNotExist err
                       then e2 = None \<and> c2 = [CallRemoveAll dest, CallSymlink source dest]
                       else e2 = Some err \<and> c2 = []))"
proof (cases rule: ensureSymlink_cases [of fs dest source])
  case (stat_err err)
  with first show ?thesis by auto
next
  case (readlink_err info err)
  with first show ?thesis by auto
next
  case (linked info)
  with first show ?thesis by auto
next
  case create
  show ?thesis
  proof (cases "lookup fs (butlast dest) = Some Dir")
    case True
    have c: "ensureSymlink_create fs source dest =
        (None, (removed fs dest)(dest \<mapsto> Symlink source),
         [CallRemoveAll dest, CallSymlink source dest])"
      using create_eq [OF create(1), of fs source] True by simp
    from first create(2) c have e1: "e1 = None"
      and fs1: "fs1 = (removed fs dest)(dest \<mapsto> Symlink source)" by simp_all
    have l: "lookup fs1 dest = Some (Symlink source)"
      using create(1) by (simp add: fs1 lookup_def)
    note s = second_call [OF create(1) True fs1]
    show ?thesis
    proof (cases "Stat fs1 dest")
      case (Inl err)
      with s e1 l show ?thesis by simp
    next
      case (Inr info)
      with s e1 l show ?thesis by simp
    qed
  next
    case False
    from failed_create_again [OF create(1) False, of source] obtain err where
      a: "ensureSymlink_create fs source dest =
            (Some err, removed fs dest, [CallRemoveAll dest, CallSymlink source dest])"
      and b: "ensureSymlink (removed fs dest) source dest =
            (Some err, removed fs dest, [CallRemoveAll dest, CallSymlink source dest])"
      by blast
    from first create(2) a have "e1 = Some err" "fs1 = removed fs dest" by simp_all
    with b show ?thesis by simp
  qed
qed

theorem ensureSymlink_twice_witness:
  "ensureSymlink fs_empty_target fonts_src fonts_dst =
     (None, (removed fs_empty_target fonts_dst)(fonts_dst \<mapsto> Symlink fonts_src),
      [CallRemoveAll fonts_dst, CallSymlink fonts_src fonts_dst])
   \<and> (\<exists>e2 c2. ensureSymlink ((removed fs_empty_target fonts_dst)(fonts_dst \<mapsto> Symlink fonts_src))
          fonts_src fonts_dst =
        (e2, (removed fs_empty_target fonts_dst)(fonts_dst \<mapsto> Symlink fonts_src), c2))
   \<and> lookup ((removed fs_empty_target fonts_dst)(fonts_dst \<mapsto> Symlink fonts_src)) fonts_dst
        = Some (Symlink fonts_src)"
proof -
  have f: "ensureSymlink fs_empty_target fonts_src fonts_dst =
     (None, (removed fs_empty_target fonts_dst)(fonts_dst \<mapsto> Symlink fonts_src),
      [CallRemoveAll fonts_dst, CallSymlink fonts_src fonts_dst])"
    by (simp add: fs_eval fs_empty_target_def)
  from ensureSymlink_twice [OF f] show ?thesis using f by blast
qed

text \<open>
  The claim as stated fails twice. With a source that does not exist, the second call
  removes the link and creates it again. With a regular file at the destination, the call
  returns the error of \<open>Readlink\<close> and the destination stays a regular file.
\<close>

theorem ensureSymlink_second_call_modifies:
  "fst (ensureSymlink fs_empty_target fonts_src fonts_dst) = None
   \<and> snd (snd (ensureSymlink (fst (snd (ensureSymlink fs_empty_target fonts_src fonts_dst)))
         fonts_src fonts_dst)) = [CallRemoveAll fonts_dst, CallSymlink fonts_src fonts_dst]
   \<and> lookup fs_file_at_dest fonts_dst = Some File
   \<and> ensureSymlink fs_file_at_dest fonts_src fonts_dst = (Some EINVAL, fs_file_at_dest, [])"
  by (simp add: fs_eval fs_empty_target_def fs_file_at_dest_def)

text \<open>
  Claim C8, as amended. When the destination is a link to a path other than the source,
  its parent is a directory, and \<open>Stat\<close> of the destination succeeds or reports that
  nothing is there, \<open>ensureSymlink\<close> removes the destination, creates the link to the
  source and returns no error.
\<close>

theorem ensureSymlink_repoints:
  assumes "lookup fs dest = Some (Symlink other)" and "other \<noteq> source"
    and "lookup fs (butlast dest) = Some Dir"
    and "(\<exists>info. Stat fs dest = Inr info) \<or> Stat fs dest = Inl ENOENT"
  shows "ensureSymlink fs source dest =
           (None, (removed fs dest)(dest \<mapsto> Symlink source),
            [CallRemoveAll dest, CallSymlink source dest])
       \<and> lookup ((removed fs dest)(dest \<mapsto> Symlink source)) dest = Some (Symlink source)"
proof -
  from assms(1) have ne: "dest \<noteq> []" by (auto simp add: lookup_def)
  have rl: "Readlink fs dest = Inr other"
    using assms(1) by (simp add: Readlink_Inr)
  have c: "ensureSymlink_create fs source dest =
        (None, (removed fs dest)(dest \<mapsto> Symlink source),
         [CallRemoveAll dest, CallSymlink source dest])"
    using create_eq [OF ne, of fs source] assms(3) by simp
  have "ensureSymlink fs source dest = ensureSymlink_create fs source dest"
    using assms(4) assms(2) rl by (auto simp add: ensureSymlink_def IsNotExist_def)
  with c ne show ?thesis by (simp add: lookup_def)
qed

theorem ensureSymlink_repoints_witness:
  "lookup fs_old_link fonts_dst = Some (Symlink [''content'', ''old''])
   \<and> [''content'', ''old''] \<noteq> fonts_src
   \<and> lookup fs_old_link (butlast fonts_dst) = Some Dir
   \<and> Stat fs_old_link fonts_dst = Inr Dir
   \<and> fst (ensureSymlink fs_old_link fonts_src fonts_dst) = None
   \<and> lookup (fst (snd (ensureSymlink fs_old_link fonts_src fonts_dst))) fonts_dst
        = Some (Symlink fonts_src)"
proof -
  have a: "lookup fs_old_link fonts_dst = Some (Symlink [''content'', ''old''])"
    by (simp add: fs_eval fs_old_link_def)
  have b: "[''content'', ''old''] \<noteq> fonts_src" by (simp add: fonts_src_def)
  have c: "lookup fs_old_link (butlast fonts_dst) = Some Dir"
    by (simp add: fs_eval fs_old_link_def)
  have d: "Stat fs_old_link fonts_dst = Inr Dir"
    by (simp add: fs_eval fs_old_link_def)
  then have d': "(\<exists>info. Stat fs_old_link fonts_dst = Inr info) \<or> Stat fs_old_link fonts_dst = Inl ENOENT"
    by simp
  note r = ensureSymlink_repoints [OF a b c d']
  show ?thesis using a b c d r by simp
qed

text \<open>
  The claim as stated fails for a destination that is a link to itself: \<open>Stat\<close> fails
  with \<open>ELOOP\<close>, which is not a "does not exist" error, and \<open>ensureSymlink\<close> returns it
  and leaves the link.
\<close>

theorem ensureSymlink_loop_not_repointed:
  "lookup fs_loop_at_dest fonts_dst = Some (Symlink fonts_dst)
   \<and> fonts_dst \<noteq> fonts_src
   \<and> ensureSymlink fs_loop_at_dest fonts_src fonts_dst = (Some ELOOP, fs_loop_at_dest, [])"
  by (simp add: fs_eval fs_loop_at_dest_def)

section \<open>Properties of the channel-based \<^verbatim>\<open>main\<close>\<close>



















lemma run_go_append: "run_go n env s (a @ b) = run_go n env (run_go n env s a) b"
  by (induction a arbitrary: s) (simp_all split: option.splits)

lemma run_spawn:
  "k = n - i \<Longrightarrow> i \<le> n \<Longrightarrow>
   run_go n env \<lparr>mainpc = MSpawn i, drainer = d, workers = ws, jobsq = q, wg = w, ran = r,
                 ended = None\<rparr> (replicate (Suc k) TMain)
   = \<lparr>mainpc = MAdd1, drainer = d, workers = ws @ replicate k WIdle, jobsq = q, wg = w,
      ran = r, ended = None\<rparr>"
proof (induction k arbitrary: i ws)
  case 0
  then show ?case by (simp add: step_def)
next
  case (Suc k)
  from Suc.prems have lt: "i < n" and k: "k = n - Suc i" and le: "Suc i \<le> n" by simp_all
  have one: "step n env \<lparr>mainpc = MSpawn i, drainer = d, workers = ws, jobsq = q, wg = w,
      ran = r, ended = None\<rparr> TMain
    = Some \<lparr>mainpc = MSpawn (Suc i), drainer = d, workers = ws @ [WIdle], jobsq = q, wg = w,
      ran = r, ended = None\<rparr>"
    using lt by (simp add: step_def)
  have "run_go n env \<lparr>mainpc = MSpawn i, drainer = d, workers = ws, jobsq = q, wg = w,
      ran = r, ended = None\<rparr> (replicate (Suc (Suc k)) TMain)
    = run_go n env \<lparr>mainpc = MSpawn (Suc i), drainer = d, workers = ws @ [WIdle], jobsq = q,
      wg = w, ran = r, ended = None\<rparr> (replicate (Suc k) TMain)"
    by (simp only: replicate_Suc [of "Suc k"] run_go.simps one option.case)
  also have "\<dots> = \<lparr>mainpc = MAdd1, drainer = d, workers = (ws @ [WIdle]) @ replicate k WIdle,
      jobsq = q, wg = w, ran = r, ended = None\<rparr>"
    by (rule Suc.IH [OF k le])
  finally show ?case by (simp add: replicate_app_Cons_same)
qed




lemma run_start:
  assumes mk: "mkdirAll env = None"
  shows "run_go n env init_go (sched_start n)
       = \<lparr>mainpc = MArticles, drainer = DRecv, workers = replicate n WIdle,
          jobsq = [LinkAssets], wg = 1, ran = [], ended = None\<rparr>"
proof -
  have 1: "run_go n env init_go [TMain, TDrainer]
      = \<lparr>mainpc = MSpawn 0, drainer = DRecv, workers = [], jobsq = [], wg = 0, ran = [],
         ended = None\<rparr>"
    by (simp add: init_go_def step_def mk)
  have 2: "run_go n env \<lparr>mainpc = MSpawn 0, drainer = DRecv, workers = [], jobsq = [], wg = 0,
         ran = [], ended = None\<rparr> (replicate (n + 1) TMain)
      = \<lparr>mainpc = MAdd1, drainer = DRecv, workers = replicate n WIdle, jobsq = [],
         wg = 0, ran = [], ended = None\<rparr>"
    using run_spawn [of n n 0 env DRecv "[]" "[]" 0 "[]"] by simp
  have 3: "run_go n env \<lparr>mainpc = MAdd1, drainer = DRecv, workers = replicate n WIdle,
         jobsq = [], wg = 0, ran = [], ended = None\<rparr> [TMain, TMain]
      = \<lparr>mainpc = MArticles, drainer = DRecv, workers = replicate n WIdle,
         jobsq = [LinkAssets], wg = 1, ran = [], ended = None\<rparr>"
    by (simp add: step_def jobs_capacity_def)
  show ?thesis unfolding sched_start_def run_go_append 1 2 3 ..
qed

lemma run_job_panics:
  assumes n: "1 \<le> n" and mk: "mkdirAll env = None" and f: "runJob env LinkAssets = Some e"
  shows "run_go n env init_go (sched_job_panics n)
       = \<lparr>mainpc = MArticles, drainer = DGot (Some e), workers = WDone # replicate (n - 1) WIdle,
          jobsq = [], wg = 1, ran = [LinkAssets], ended = Some (Panicked e)\<rparr>"
proof -
  obtain m where m: "n = Suc m" using n by (cases n) simp_all
  show ?thesis
    unfolding sched_job_panics_def run_go_append run_start [OF mk]
    by (simp add: m step_def f)
qed

lemma run_listing_panics:
  assumes n: "1 \<le> n" and mk: "mkdirAll env = None" and f: "readArticlesDir env = Inl e"
  shows "run_go n env init_go (sched_listing_panics n)
       = \<lparr>mainpc = MPages [], drainer = DGot (Some e),
          workers = WSend (runJob env LinkAssets) # replicate (n - 1) WIdle,
          jobsq = [], wg = 1, ran = [LinkAssets], ended = Some (Panicked e)\<rparr>"
proof -
  obtain m where m: "n = Suc m" using n by (cases n) simp_all
  show ?thesis
    unfolding sched_listing_panics_def run_go_append run_start [OF mk]
    by (simp add: m step_def f generateArticleJobs_def err_of_def jobs_or_nil_def)
qed


lemma main_listing_fails:
  assumes "readArticles env = Inl err"
  shows "\<exists>e. main env = Some (fatal e)"
  using assms by (auto simp add: main_def tasksForArticles_def split: sum.splits option.splits)

lemma set_report_subset:
  "set (if 10 \<le> length fs
        then map LogError (take 10 fs) @ [LogError ''Too many errors.'']
        else map LogError fs)
     \<subseteq> LogError ` set fs \<union> {LogError ''Too many errors.''}"
proof -
  have "set (take 10 fs) \<subseteq> set fs" by (rule set_take_subset)
  then show ?thesis by auto
qed

text \<open>
  Claim C4, as amended. In the pool-based command, for a positive worker count, \<open>Run\<close>
  returns with what each Job returned recorded on its own Task, whatever the other jobs
  returned; \<open>runTasks\<close> logs nothing but failures of jobs and the marker; and \<open>main\<close> ends
  with an exit status after all jobs were handed to the pool. In the channel-based
  \<^verbatim>\<open>main\<close>, what a job returns goes to the reader of \<^verbatim>\<open>errors\<close>, which panics on an error:
  when \<^verbatim>\<open>linkAssets\<close> fails there is a schedule on which the process ends in that panic
  with no further job invoked.
\<close>

theorem job_failure_is_recorded:
  assumes "0 < Concurrency conf"
  shows "\<exists>p lines.
           Run exec (NewPool tasks (Concurrency conf)) = Some p
         \<and> map Job (Tasks p) = map Job tasks
         \<and> map Err (Tasks p) = map (\<lambda>t. exec (Job t)) tasks
         \<and> runTasks exec conf tasks = Some (lines, failures exec tasks = [])
         \<and> set lines \<subseteq> LogError ` set (failures exec tasks) \<union> {LogError ''Too many errors.''}
         \<and> (decodeEnv env = Inr conf \<and> createOutputDirs env = None \<and> readArticles env = Inr files
            \<longrightarrow> (\<exists>r. main env = Some r
                   \<and> executed r = map Job (fixedTasks @ tasksForArticles_loop files [])
                   \<and> status r = (if \<exists>j\<in>set (executed r). execJob env j \<noteq> None then 1 else 0)))
         \<and> (1 \<le> n \<and> mkdirAll genv = None \<and> runJob genv LinkAssets = Some e \<longrightarrow>
              ended (run_go n genv init_go (sched_job_panics n)) = Some (Panicked e)
              \<and> ran (run_go n genv init_go (sched_job_panics n)) = [LinkAssets])"
proof -
  let ?p = "\<lparr>Tasks = map (run_task exec) tasks, workerCount = Concurrency conf\<rparr>"
  let ?lines = "if 10 \<le> length (failures exec tasks)
           then map LogError (take 10 (failures exec tasks)) @ [LogError ''Too many errors.'']
           else map LogError (failures exec tasks)"
  have r: "Run exec (NewPool tasks (Concurrency conf)) = Some ?p"
    using assms by (simp add: Run_def NewPool_def)
  have j: "map Job (Tasks ?p) = map Job tasks"
    by (simp add: Job_run_task)
  have o: "map Err (Tasks ?p) = map (\<lambda>t. exec (Job t)) tasks"
    by (simp add: Err_run_task)
  have t: "runTasks exec conf tasks = Some (?lines, failures exec tasks = [])"
    by (rule runTasks_eq [OF assms])
  have s: "set ?lines \<subseteq> LogError ` set (failures exec tasks) \<union> {LogError ''Too many errors.''}"
    by (rule set_report_subset)
  have m: "decodeEnv env = Inr conf \<and> createOutputDirs env = None \<and> readArticles env = Inr files
            \<longrightarrow> (\<exists>r. main env = Some r
                   \<and> executed r = map Job (fixedTasks @ tasksForArticles_loop files [])
                   \<and> status r = (if \<exists>j\<in>set (executed r). execJob env j \<noteq> None then 1 else 0))"
    using main_runs_all [OF assms, of env files] by blast
  have g: "1 \<le> n \<and> mkdirAll genv = None \<and> runJob genv LinkAssets = Some e \<longrightarrow>
              ended (run_go n genv init_go (sched_job_panics n)) = Some (Panicked e)
              \<and> ran (run_go n genv init_go (sched_job_panics n)) = [LinkAssets]"
  proof (intro impI, elim conjE)
    assume h: "1 \<le> n" "mkdirAll genv = None" "runJob genv LinkAssets = Some e"
    show "ended (run_go n genv init_go (sched_job_panics n)) = Some (Panicked e)
              \<and> ran (run_go n genv init_go (sched_job_panics n)) = [LinkAssets]"
      unfolding run_job_panics [OF h] by simp
  qed
  from r j o t s m g show ?thesis by blast
qed

theorem job_failure_is_recorded_witness:
  "0 < Concurrency conf0
   \<and> third_fails (Job (three ! 2)) = Some ''error''
   \<and> (\<exists>p. Run third_fails (NewPool three (Concurrency conf0)) = Some p
         \<and> map Err (Tasks p) = [None, None, Some ''error''])"
proof -
  have c: "0 < Concurrency conf0" by (simp add: conf0_def)
  from job_failure_is_recorded [OF c, of third_fails three]
  obtain p where "Run third_fails (NewPool three (Concurrency conf0)) = Some p"
    and "map Err (Tasks p) = map (\<lambda>t. third_fails (Job t)) three"
    by blast
  moreover have "map (\<lambda>t. third_fails (Job t)) three = [None, None, Some ''error'']"
    by (simp add: three_def third_fails_def NewTask_def)
  moreover have "third_fails (Job (three ! 2)) = Some ''error''"
    by (simp add: three_def third_fails_def NewTask_def)
  ultimately show ?thesis using c by auto
qed

text \<open>
  The claim as stated fails on the channel-based \<^verbatim>\<open>main\<close>: the error \<^verbatim>\<open>linkAssets\<close>
  returns ends the process in a panic, and the article and page jobs are never invoked.
\<close>

theorem main_go_job_failure_panics:
  "runJob env_link_fails LinkAssets = Some ''symlink: file exists''
   \<and> ended (run_go Concurrency_go env_link_fails init_go (sched_job_panics Concurrency_go))
       = Some (Panicked ''symlink: file exists'')
   \<and> ran (run_go Concurrency_go env_link_fails init_go (sched_job_panics Concurrency_go))
       = [LinkAssets]
   \<and> submitted env_link_fails = [LinkAssets, RenderArticle ''hello.md'', RenderPage ''about'']"
proof -
  have n: "1 \<le> Concurrency_go" by (simp add: Concurrency_go_def)
  have mk: "mkdirAll env_link_fails = None" by (simp add: env_link_fails_def)
  have f: "runJob env_link_fails LinkAssets = Some ''symlink: file exists''"
    by (simp add: env_link_fails_def)
  have s: "submitted env_link_fails = [LinkAssets, RenderArticle ''hello.md'', RenderPage ''about'']"
    by (simp add: submitted_def articleJobs_of_def pageJobs_of_def env_link_fails_def
        generateArticleJobs_def generatePageJobs_def jobs_or_nil_def trimExtension_def
        TrimSuffix_def HasSuffix_def Ext_def)
  show ?thesis unfolding run_job_panics [OF n mk f] using f s by simp
qed

text \<open>
  Claim C5, as amended. In the pool-based command, when listing the articles directory
  fails, \<open>main\<close> logs the error at fatal level and exits with status 1 with no job handed to
  the pool. In the channel-based \<^verbatim>\<open>main\<close> the workers run and \<^verbatim>\<open>linkAssets\<close> is submitted
  before the directories are listed: when the listing of the articles fails there is a
  schedule on which \<^verbatim>\<open>linkAssets\<close> has been invoked when the process panics.
\<close>

theorem main_listing_failure_runs_no_job:
  "(readArticles env = Inl err \<longrightarrow>
      (\<exists>e. main env = Some \<lparr>status = 1, logged = [LogFatal e], executed = []\<rparr>))
   \<and> (decodeEnv env = Inr conf \<and> createOutputDirs env = None \<and> readArticles env = Inl err \<longrightarrow>
        main env = Some \<lparr>status = 1, logged = [LogFatal err], executed = []\<rparr>)
   \<and> (1 \<le> n \<and> mkdirAll genv = None \<and> readArticlesDir genv = Inl err \<longrightarrow>
        ended (run_go n genv init_go (sched_listing_panics n)) = Some (Panicked err)
        \<and> ran (run_go n genv init_go (sched_listing_panics n)) = [LinkAssets])"
proof -
  have a: "readArticles env = Inl err \<longrightarrow>
      (\<exists>e. main env = Some \<lparr>status = 1, logged = [LogFatal e], executed = []\<rparr>)"
    using main_listing_fails [of env err] by (simp add: fatal_def)
  have b: "decodeEnv env = Inr conf \<and> createOutputDirs env = None \<and> readArticles env = Inl err \<longrightarrow>
        main env = Some \<lparr>status = 1, logged = [LogFatal err], executed = []\<rparr>"
    by (simp add: main_def tasksForArticles_def fatal_def)
  have c: "1 \<le> n \<and> mkdirAll genv = None \<and> readArticlesDir genv = Inl err \<longrightarrow>
        ended (run_go n genv init_go (sched_listing_panics n)) = Some (Panicked err)
        \<and> ran (run_go n genv init_go (sched_listing_panics n)) = [LinkAssets]"
  proof (intro impI, elim conjE)
    assume h: "1 \<le> n" "mkdirAll genv = None" "readArticlesDir genv = Inl err"
    show "ended (run_go n genv init_go (sched_listing_panics n)) = Some (Panicked err)
        \<and> ran (run_go n genv init_go (sched_listing_panics n)) = [LinkAssets]"
      unfolding run_listing_panics [OF h] by simp
  qed
  from a b c show ?thesis by (intro conjI)
qed

theorem main_listing_failure_runs_no_job_witness:
  "readArticles env_unreadable = Inl ''open content/articles: no such file or directory''
   \<and> main env_unreadable =
       Some \<lparr>status = 1, logged = [LogFatal ''open content/articles: no such file or directory''],
             executed = []\<rparr>"
proof -
  have h: "decodeEnv env_unreadable = Inr conf0 \<and> createOutputDirs env_unreadable = None
      \<and> readArticles env_unreadable = Inl ''open content/articles: no such file or directory''"
    by (simp add: env_unreadable_def)
  note t = main_listing_failure_runs_no_job [of env_unreadable
      "''open content/articles: no such file or directory''" conf0,
      THEN conjunct2, THEN conjunct1, rule_format, OF h]
  from h t show ?thesis by simp
qed

text \<open>
  The claim as stated fails on the channel-based \<^verbatim>\<open>main\<close>: with an articles directory
  that cannot be listed, \<^verbatim>\<open>linkAssets\<close> has run when the process panics on the error.
\<close>

theorem main_go_job_runs_before_listing_fails:
  "readArticlesDir env_no_articles = Inl ''open ./articles/: no such file or directory''
   \<and> ended (run_go Concurrency_go env_no_articles init_go (sched_listing_panics Concurrency_go))
       = Some (Panicked ''open ./articles/: no such file or directory'')
   \<and> ran (run_go Concurrency_go env_no_articles init_go (sched_listing_panics Concurrency_go))
       = [LinkAssets]"
proof -
  have n: "1 \<le> Concurrency_go" by (simp add: Concurrency_go_def)
  have mk: "mkdirAll env_no_articles = None" by (simp add: env_no_articles_def)
  have f: "readArticlesDir env_no_articles = Inl ''open ./articles/: no such file or directory''"
    by (simp add: env_no_articles_def)
  show ?thesis unfolding run_listing_panics [OF n mk f] using f by simp
qed

section \<open>Properties of the workers of the pool\<close>























end
